theory Spec2Isabelle
  imports Main
begin

section \<open>Share-IT: share links, redemption and the hourly cleanup\<close>

text \<open>
  A shallow embedding of the Express server of the repository: the Mongoose \<open>File\<close>
  schema, \<open>calculateExpirationDate\<close>, the handlers of \<open>POST /upload\<close>,
  \<open>GET /share/:id\<close> and \<open>POST /files/:id/download\<close>, and the job that
  \<open>cron.schedule\<close> runs every hour.

  Instants are JavaScript time values: whole milliseconds since the epoch, as \<open>int\<close>.
  Counters are \<open>int\<close> as well; the quantities that occur stay far below \<open>2 ^ 53\<close>,
  where a JavaScript number is an exact integer. The database and the uploads directory
  are passed explicitly and returned updated; database and file system calls are taken to
  succeed. The analytics collection that \<open>updateAnalytics\<close> writes is a separate
  collection, which no handler reads back, and is left out.
\<close>

subsection \<open>The File schema\<close>

datatype status = Active | Expired | Disabled

record download_entry =
  downloadedAt :: int
  ip :: string
  country :: string
  userAgent :: string

record share_stats =
  totalViews :: int
  uniqueVisitors :: int
  peakDownloads :: int

text \<open>
  \<open>fid\<close> is the document's \<open>_id\<close> and \<open>fsize\<close> its \<open>size\<close>. The two fields that
  the schema leaves without a default and that the handlers test for presence,
  \<open>expiresAt\<close> and \<open>passwordHash\<close>, are options.
\<close>

record File =
  fid :: nat
  name :: string
  fsize :: int
  path :: string
  createdAt :: int
  expiresIn :: string
  expiresAt :: "int option"
  passwordProtected :: bool
  passwordHash :: "string option"
  downloads :: int
  maxDownloads :: int
  status :: status
  fileType :: string
  uploadedBy :: string
  isPublic :: bool
  downloadHistory :: "download_entry list"
  shareStats :: share_stats

text \<open>
  The state the handlers share: the \<open>files\<close> collection, in insertion order, and the
  names of the files present in the uploads directory.
\<close>

record state =
  files :: "File list"
  disk :: "string set"

definition init_state :: state where
  "init_state = \<lparr>files = [], disk = {}\<rparr>"

text \<open>
  The library functions the server calls and the repository does not contain:
  \<open>bcrypt.hash\<close> (with the salt it draws), \<open>bcrypt.compare\<close> and \<open>path.extname\<close>.
\<close>

record env =
  bcrypt_hash :: "string \<Rightarrow> string"
  bcrypt_compare :: "string \<Rightarrow> string \<Rightarrow> bool"
  extname :: "string \<Rightarrow> string"

subsection \<open>The collection\<close>

definition findById :: "nat \<Rightarrow> File list \<Rightarrow> File option" where
  "findById i fs = find (\<lambda>f. fid f = i) fs"

text \<open>
  \<open>doc.save()\<close> of a document that a handler received as \<open>f0\<close> and has changed into
  \<open>f1\<close>. Mongoose does not write the handler's copy back: it sends an update of the
  paths the handler has modified, which the database applies to the stored document
  \<open>g\<close> of the same \<open>_id\<close>, whatever that document has become since it was read.
  The update is a \<open>$set\<close> of each plain field that the handler gave another value (the
  handlers assign \<open>status\<close>, \<open>downloads\<close>, \<open>shareStats.totalViews\<close> and
  \<open>shareStats.peakDownloads\<close>, and no other field) and a \<open>$push\<close> of each entry
  that the handler pushed on \<open>downloadHistory\<close>.
\<close>

definition write_back :: "File \<Rightarrow> File \<Rightarrow> File \<Rightarrow> File" where
  "write_back f0 f1 g =
     g\<lparr>status := (if status f1 \<noteq> status f0 then status f1 else status g),
       downloads := (if downloads f1 \<noteq> downloads f0 then downloads f1 else downloads g),
       downloadHistory :=
         downloadHistory g @ drop (length (downloadHistory f0)) (downloadHistory f1),
       shareStats :=
         (shareStats g)
           \<lparr>totalViews :=
              (if totalViews (shareStats f1) \<noteq> totalViews (shareStats f0)
               then totalViews (shareStats f1) else totalViews (shareStats g)),
            peakDownloads :=
              (if peakDownloads (shareStats f1) \<noteq> peakDownloads (shareStats f0)
               then peakDownloads (shareStats f1) else peakDownloads (shareStats g))\<rparr>\<rparr>"

definition save :: "File \<Rightarrow> File \<Rightarrow> File list \<Rightarrow> File list" where
  "save f0 f1 fs = map (\<lambda>g. if fid g = fid f0 then write_back f0 f1 g else g) fs"

definition save_file :: "File \<Rightarrow> File \<Rightarrow> state \<Rightarrow> state" where
  "save_file f0 f1 s = s\<lparr>files := save f0 f1 (files s)\<rparr>"

text \<open>A new document gets an \<open>_id\<close> that no stored document has.\<close>

definition fresh_id :: "File list \<Rightarrow> nat" where
  "fresh_id fs = Suc (foldr max (map fid fs) 0)"

definition insert_file :: "File \<Rightarrow> state \<Rightarrow> state" where
  "insert_file f s = s\<lparr>files := files s @ [f]\<rparr>"

subsection \<open>JavaScript values\<close>

text \<open>A string is falsy when it is absent or empty: \<open>!password\<close>, \<open>x || 'unknown'\<close>.\<close>

definition truthy :: "string option \<Rightarrow> bool" where
  "truthy x = (case x of None \<Rightarrow> False | Some v \<Rightarrow> v \<noteq> [])"

definition or_else :: "string option \<Rightarrow> string \<Rightarrow> string" where
  "or_else x d = (case x of None \<Rightarrow> d | Some v \<Rightarrow> if v = [] then d else v)"

text \<open>
  \<open>new Date(t)\<close>: a time value beyond 8.64e15 milliseconds from the epoch is clipped
  to NaN, and the Date is invalid.
\<close>

datatype date = Date int | InvalidDate

definition maxTime :: int where
  "maxTime = 8640000000000000"

definition new_Date :: "int \<Rightarrow> date" where
  "new_Date t = (if \<bar>t\<bar> \<le> maxTime then Date t else InvalidDate)"

subsection \<open>calculateExpirationDate\<close>

definition is_digit :: "char \<Rightarrow> bool" where
  "is_digit c = (c \<in> set ''0123456789'')"

definition is_unit :: "char \<Rightarrow> bool" where
  "is_unit c = (c \<in> set ''hdwm'')"

definition timeUnits :: "char \<Rightarrow> int option" where
  "timeUnits u =
     (if u = CHR ''h'' then Some (60 * 60 * 1000)
      else if u = CHR ''d'' then Some (24 * 60 * 60 * 1000)
      else if u = CHR ''w'' then Some (7 * 24 * 60 * 60 * 1000)
      else if u = CHR ''m'' then Some (30 * 24 * 60 * 60 * 1000)
      else None)"

text \<open>
  The pattern \<open>(\d+)([hdwm])\<close> tried at the start of a string: the digits are taken
  greedily, and giving one back leaves a digit where the unit must stand, so the
  longest run of digits decides.
\<close>

definition match_at :: "string \<Rightarrow> (string \<times> char) option" where
  "match_at s =
     (let amount = takeWhile is_digit s in
      case dropWhile is_digit s of
        [] \<Rightarrow> None
      | u # _ \<Rightarrow> if amount \<noteq> [] \<and> is_unit u then Some (amount, u) else None)"

text \<open>\<open>expiresIn.match(...)\<close> is not anchored: it returns the leftmost match.\<close>

fun regex_match :: "string \<Rightarrow> (string \<times> char) option" where
  "regex_match [] = None"
| "regex_match (c # cs) =
     (case match_at (c # cs) of
        Some m \<Rightarrow> Some m
      | None \<Rightarrow> regex_match cs)"

definition digit_val :: "char \<Rightarrow> int" where
  "digit_val c = int (of_char c) - 48"

text \<open>\<open>parseInt\<close> of a string of decimal digits.\<close>

definition parseInt :: "string \<Rightarrow> int" where
  "parseInt ds = foldl (\<lambda>a c. 10 * a + digit_val c) 0 ds"

definition calculateExpirationDate :: "int \<Rightarrow> string \<Rightarrow> date" where
  "calculateExpirationDate now e =
     (case regex_match e of
        None \<Rightarrow> new_Date (now + 24 * 60 * 60 * 1000)
      | Some (amount, u) \<Rightarrow>
          (case timeUnits u of
             None \<Rightarrow> InvalidDate
           | Some len \<Rightarrow> new_Date (now + parseInt amount * len)))"

subsection \<open>getFileType\<close>

definition lower_char :: "char \<Rightarrow> char" where
  "lower_char c =
     (let n = (of_char c :: nat) in if 65 \<le> n \<and> n \<le> 90 then char_of (n + 32) else c)"

definition typeMap :: "(string \<times> string) list" where
  "typeMap =
     [(''.pdf'', ''PDF''), (''.doc'', ''Document''), (''.docx'', ''Document''),
      (''.txt'', ''Text''), (''.jpg'', ''Image''), (''.jpeg'', ''Image''),
      (''.png'', ''Image''), (''.gif'', ''Image''), (''.mp4'', ''Video''),
      (''.avi'', ''Video''), (''.mkv'', ''Video''), (''.mp3'', ''Audio''),
      (''.wav'', ''Audio''), (''.zip'', ''Archive''), (''.rar'', ''Archive''),
      (''.7z'', ''Archive''), (''.js'', ''Code''), (''.html'', ''Code''),
      (''.css'', ''Code''), (''.py'', ''Code'')]"

definition getFileType :: "env \<Rightarrow> string \<Rightarrow> string" where
  "getFileType env filename =
     (case map_of typeMap (map lower_char (extname env filename)) of
        None \<Rightarrow> ''Other''
      | Some t \<Rightarrow> t)"

subsection \<open>POST /upload\<close>

text \<open>What multer hands to the handler: the uploaded file, already written to the
  uploads directory under \<open>filename\<close>, and the text fields of the form.\<close>

record upload_file =
  originalname :: string
  size_bytes :: int
  filename :: string

record upload_req =
  up_file :: "upload_file option"
  up_expiresIn :: "string option"
  up_password :: "string option"
  up_isPublic :: "string option"
  up_ip :: "string option"

datatype upload_response =
    NoFileUploaded
  | UploadFailed
  | Uploaded nat int

text \<open>
  \<open>Uploaded i t\<close> is the 200 response with \<open>fileId = i\<close> and \<open>expiresAt = t\<close>. An
  invalid \<open>expiresAt\<close> is refused by the schema's Date cast when the document is saved
  (and \<open>toISOString\<close> throws on it): the handler's \<open>catch\<close> answers 500.
\<close>

definition new_File :: "env \<Rightarrow> upload_file \<Rightarrow> upload_req \<Rightarrow> int \<Rightarrow> int \<Rightarrow> nat \<Rightarrow> File" where
  "new_File env uf req now t i =
     \<lparr>fid = i,
      name = originalname uf,
      fsize = size_bytes uf,
      path = filename uf,
      createdAt = now,
      expiresIn = (case up_expiresIn req of None \<Rightarrow> ''24h'' | Some e \<Rightarrow> e),
      expiresAt = Some t,
      passwordProtected = truthy (up_password req),
      passwordHash =
        (case up_password req of
           None \<Rightarrow> None
         | Some p \<Rightarrow> if p = [] then None else Some (bcrypt_hash env p)),
      downloads = 0,
      maxDownloads = 50,
      status = Active,
      fileType = getFileType env (originalname uf),
      uploadedBy = or_else (up_ip req) ''unknown'',
      isPublic = (case up_isPublic req of None \<Rightarrow> True | Some v \<Rightarrow> v = ''true''),
      downloadHistory = [],
      shareStats = \<lparr>totalViews = 0, uniqueVisitors = 0, peakDownloads = 0\<rparr>\<rparr>"

definition upload :: "env \<Rightarrow> upload_req \<Rightarrow> int \<Rightarrow> state \<Rightarrow> upload_response \<times> state" where
  "upload env req now s =
     (case up_file req of
        None \<Rightarrow> (NoFileUploaded, s)
      | Some uf \<Rightarrow>
          (let s1 = s\<lparr>disk := insert (filename uf) (disk s)\<rparr>;
               e = (case up_expiresIn req of None \<Rightarrow> ''24h'' | Some e \<Rightarrow> e)
           in case calculateExpirationDate now e of
                InvalidDate \<Rightarrow> (UploadFailed, s1)
              | Date t \<Rightarrow>
                  (let i = fresh_id (files s1)
                   in (Uploaded i t, insert_file (new_File env uf req now t i) s1))))"

subsection \<open>GET /share/:id\<close>

datatype page_response = PageNotFound | PageExpired | PageShown

text \<open>\<open>file.expiresAt && new Date() > file.expiresAt\<close>, the test of both handlers.\<close>

definition past_expiry :: "int \<Rightarrow> File \<Rightarrow> bool" where
  "past_expiry now f = (case expiresAt f of None \<Rightarrow> False | Some e \<Rightarrow> now > e)"

definition share_page :: "nat \<Rightarrow> int \<Rightarrow> state \<Rightarrow> page_response \<times> state" where
  "share_page i now s =
     (case findById i (files s) of
        None \<Rightarrow> (PageNotFound, s)
      | Some f \<Rightarrow>
          if past_expiry now f then (PageExpired, save_file f (f\<lparr>status := Expired\<rparr>) s)
          else (PageShown,
                save_file f
                  (f\<lparr>shareStats := (shareStats f)\<lparr>totalViews := totalViews (shareStats f) + 1\<rparr>\<rparr>) s))"

subsection \<open>POST /files/:id/download\<close>

record download_req =
  dl_password :: "string option"
  dl_userAgent :: "string option"
  dl_forwardedFor :: "string option"
  dl_remoteAddress :: "string option"
  dl_country :: string

text \<open>
  The responses, in the order of the handler's returns: 404 \<open>File not found\<close>, 403
  \<open>File has expired\<close>, 403 \<open>File expired or inactive\<close>, 403 \<open>Download limit reached\<close>,
  401 \<open>Invalid password\<close>, 500 \<open>Download failed\<close> (the \<open>catch\<close>), 404
  \<open>File missing on disk\<close>, and \<open>res.download\<close> of a path under a name.
\<close>

datatype download_response =
    FileNotFound
  | FileExpired
  | FileInactive
  | LimitReached
  | InvalidPassword
  | DownloadFailed
  | FileMissing
  | Sent string string

text \<open>
  The password test of a protected file. \<open>bcrypt.compare\<close> is only reached with a
  truthy password, and it throws when the stored hash is absent.
\<close>

datatype pw_result = PwThrows | PwRejected | PwAccepted

definition check_password :: "env \<Rightarrow> string option \<Rightarrow> File \<Rightarrow> pw_result" where
  "check_password env pw f =
     (if \<not> passwordProtected f then PwAccepted
      else case pw of
             None \<Rightarrow> PwRejected
           | Some p \<Rightarrow>
               if p = [] then PwRejected
               else (case passwordHash f of
                       None \<Rightarrow> PwThrows
                     | Some h \<Rightarrow> if bcrypt_compare env p h then PwAccepted else PwRejected))"

text \<open>The mutation of the document between the password test and \<open>file.save()\<close>.\<close>

definition record_download :: "download_req \<Rightarrow> int \<Rightarrow> File \<Rightarrow> File" where
  "record_download req now f =
     (let d = downloads f + 1;
          entry = \<lparr>downloadedAt = now,
                   ip = or_else (dl_forwardedFor req) (or_else (dl_remoteAddress req) ''unknown''),
                   country = dl_country req,
                   userAgent = or_else (dl_userAgent req) ''unknown''\<rparr>;
          st = shareStats f;
          st1 = st\<lparr>totalViews := totalViews st + 1\<rparr>;
          st2 = (if d > peakDownloads st1 then st1\<lparr>peakDownloads := d\<rparr> else st1)
      in f\<lparr>downloads := d,
           downloadHistory := downloadHistory f @ [entry],
           shareStats := st2\<rparr>)"

text \<open>The handler from the point where \<open>File.findById\<close> has answered with \<open>doc\<close>.\<close>

definition handle_download ::
  "env \<Rightarrow> download_req \<Rightarrow> int \<Rightarrow> File option \<Rightarrow> state \<Rightarrow> download_response \<times> state" where
  "handle_download env req now doc s =
     (case doc of
        None \<Rightarrow> (FileNotFound, s)
      | Some f \<Rightarrow>
          if past_expiry now f then (FileExpired, save_file f (f\<lparr>status := Expired\<rparr>) s)
          else if status f \<noteq> Active then (FileInactive, s)
          else if downloads f \<ge> maxDownloads f
            then (LimitReached, save_file f (f\<lparr>status := Expired\<rparr>) s)
          else (case check_password env (dl_password req) f of
                  PwRejected \<Rightarrow> (InvalidPassword, s)
                | PwThrows \<Rightarrow> (DownloadFailed, s)
                | PwAccepted \<Rightarrow>
                    (let f' = record_download req now f;
                         s' = save_file f f' s
                     in if path f' \<in> disk s' then (Sent (path f') (name f'), s')
                        else (FileMissing, s'))))"

definition download ::
  "env \<Rightarrow> nat \<Rightarrow> download_req \<Rightarrow> int \<Rightarrow> state \<Rightarrow> download_response \<times> state" where
  "download env i req now s = handle_download env req now (findById i (files s)) s"

subsection \<open>The scheduled cleanup\<close>

text \<open>The query \<open>{status: 'active', expiresAt: {$lte: now}}\<close>; a document without
  \<open>expiresAt\<close> does not match a comparison with a date.\<close>

definition sweep_query :: "int \<Rightarrow> File \<Rightarrow> bool" where
  "sweep_query now f =
     (status f = Active \<and> (case expiresAt f of None \<Rightarrow> False | Some e \<Rightarrow> e \<le> now))"

text \<open>The body of the loop; \<open>autoDelete\<close> is
  \<open>settings?.security?.autoDeleteExpired\<close> of the default user's settings.\<close>

definition sweep_file :: "bool \<Rightarrow> File \<Rightarrow> state \<Rightarrow> state" where
  "sweep_file autoDelete f s =
     (let s1 = save_file f (f\<lparr>status := Expired\<rparr>) s
      in if autoDelete \<and> path f \<in> disk s1 then s1\<lparr>disk := disk s1 - {path f}\<rparr> else s1)"

definition sweep :: "bool \<Rightarrow> int \<Rightarrow> state \<Rightarrow> state" where
  "sweep autoDelete now s =
     fold (sweep_file autoDelete) (filter (sweep_query now) (files s)) s"

subsection \<open>Sequences of requests\<close>

datatype request =
    Upload upload_req int
  | SharePage nat int
  | Download nat download_req int
  | Sweep bool int

fun step :: "env \<Rightarrow> request \<Rightarrow> state \<Rightarrow> state" where
  "step env (Upload req now) s = snd (upload env req now s)"
| "step env (SharePage i now) s = snd (share_page i now s)"
| "step env (Download i req now) s = snd (download env i req now s)"
| "step env (Sweep autoDelete now) s = sweep autoDelete now s"

definition run :: "env \<Rightarrow> request list \<Rightarrow> state \<Rightarrow> state" where
  "run env rs s = fold (step env) rs s"

subsection \<open>Two handlers of the download route in flight\<close>

text \<open>
  Node runs one handler at a time and switches between handlers only where one of them
  awaits. The download handler awaits \<open>File.findById\<close> first: \<open>Found h\<close> is the moment
  handler \<open>h\<close> receives its document, a copy of the stored one, and \<open>Resume h\<close> runs the
  rest of that handler on the copy it holds. The answer of a handler is decided by its own
  copy alone; what its \<open>save\<close> stores is its modified paths, applied to the document
  as it is stored by then.
\<close>

datatype event = Found nat | Resume nat

record flight =
  shared :: state
  local_doc :: "nat \<Rightarrow> File option option"
  reply :: "nat \<Rightarrow> download_response option"

definition start_flight :: "state \<Rightarrow> flight" where
  "start_flight s = \<lparr>shared = s, local_doc = (\<lambda>_. None), reply = (\<lambda>_. None)\<rparr>"

fun flight_step :: "env \<Rightarrow> nat \<Rightarrow> (nat \<Rightarrow> download_req \<times> int) \<Rightarrow> event \<Rightarrow> flight \<Rightarrow> flight" where
  "flight_step env i reqs (Found h) c =
     c\<lparr>local_doc := (local_doc c)(h := Some (findById i (files (shared c))))\<rparr>"
| "flight_step env i reqs (Resume h) c =
     (case local_doc c h of
        None \<Rightarrow> c
      | Some doc \<Rightarrow>
          (case reply c h of
             Some _ \<Rightarrow> c
           | None \<Rightarrow>
               (let (r, s') = handle_download env (fst (reqs h)) (snd (reqs h)) doc (shared c)
                in c\<lparr>shared := s', reply := (reply c)(h := Some r)\<rparr>)))"

definition fly :: "env \<Rightarrow> nat \<Rightarrow> (nat \<Rightarrow> download_req \<times> int) \<Rightarrow> event list \<Rightarrow> state \<Rightarrow> flight" where
  "fly env i reqs evs s = fold (flight_step env i reqs) evs (start_flight s)"

subsection \<open>Predicates of the properties\<close>

text \<open>What every document of a collection that the handlers have built satisfies.\<close>

definition doc_ok :: "File \<Rightarrow> bool" where
  "doc_ok f =
     (0 < maxDownloads f \<and> downloads f \<le> maxDownloads f
      \<and> int (length (downloadHistory f)) = downloads f
      \<and> passwordProtected f = (passwordHash f \<noteq> None))"

text \<open>A request either leaves the counter and the history of a stored document as they
  are, or it is a download of that document and adds one to the counter and one entry
  to the history.\<close>

definition counted :: "request \<Rightarrow> nat \<Rightarrow> File \<Rightarrow> File \<Rightarrow> bool" where
  "counted r i f g =
     ((downloads g = downloads f \<and> downloadHistory g = downloadHistory f)
      \<or> ((\<exists>q t. r = Download i q t) \<and> downloads g = downloads f + 1
          \<and> (\<exists>e. downloadHistory g = downloadHistory f @ [e])))"

subsection \<open>Concrete requests\<close>

text \<open>
  Stand-ins for the library functions, and a few requests and collections, on which the
  handlers are evaluated below. The first upload into the empty collection gets the
  \<open>_id\<close> 1.
\<close>

definition demo_env :: env where
  "demo_env =
     \<lparr>bcrypt_hash = (\<lambda>p. ''#'' @ p),
      bcrypt_compare = (\<lambda>p h. h = ''#'' @ p),
      extname = dropWhile (\<lambda>c. c \<noteq> CHR ''.'')\<rparr>"

definition demo_upload :: upload_req where
  "demo_upload =
     \<lparr>up_file = Some \<lparr>originalname = ''a.txt'', size_bytes = 3, filename = ''1-a.txt''\<rparr>,
      up_expiresIn = Some ''1h'',
      up_password = None,
      up_isPublic = None,
      up_ip = None\<rparr>"

definition demo_locked_upload :: upload_req where
  "demo_locked_upload = demo_upload\<lparr>up_password := Some ''pw''\<rparr>"

text \<open>Uploads with other expiry specifications.\<close>

definition demo_day_upload :: upload_req where
  "demo_day_upload = demo_upload\<lparr>up_expiresIn := Some ''1d''\<rparr>"




definition demo_req :: download_req where
  "demo_req =
     \<lparr>dl_password = None,
      dl_userAgent = None,
      dl_forwardedFor = None,
      dl_remoteAddress = None,
      dl_country = ''Unknown''\<rparr>"

definition demo_wrong_req :: download_req where
  "demo_wrong_req = demo_req\<lparr>dl_password := Some ''guess''\<rparr>"

text \<open>Two handlers in flight with the same request, at time 5.\<close>

definition demo_reqs :: "nat \<Rightarrow> download_req \<times> int" where
  "demo_reqs h = (demo_req, 5)"

text \<open>The collection after one upload, with the uploaded file gone from the directory.\<close>

definition demo_gone :: state where
  "demo_gone = (run demo_env [Upload demo_upload 0] init_state)\<lparr>disk := {}\<rparr>"

text \<open>Two uploads at time 0: the first expires after an hour, the second after a day.\<close>

definition demo_two :: state where
  "demo_two = run demo_env [Upload demo_upload 0, Upload demo_day_upload 0] init_state"

text \<open>One upload and then 49, or 50, downloads of it: the limit of an upload is 50.\<close>

definition demo_last :: state where
  "demo_last = run demo_env (Upload demo_upload 0 # replicate 49 (Download 1 demo_req 5)) init_state"


text \<open>The document of that upload after \<open>n\<close> downloads at time 5.\<close>

definition demo_doc :: "nat \<Rightarrow> File" where
  "demo_doc n =
     \<lparr>fid = 1, name = ''a.txt'', fsize = 3, path = ''1-a.txt'', createdAt = 0,
      expiresIn = ''1h'', expiresAt = Some 3600000, passwordProtected = False,
      passwordHash = None, downloads = int n, maxDownloads = 50, status = Active,
      fileType = ''Text'', uploadedBy = ''unknown'', isPublic = True,
      downloadHistory =
        replicate n \<lparr>downloadedAt = 5, ip = ''unknown'', country = ''Unknown'',
                     userAgent = ''unknown''\<rparr>,
      shareStats = \<lparr>totalViews = int n, uniqueVisitors = 0, peakDownloads = int n\<rparr>\<rparr>"

text \<open>A document as another writer of the collection may leave it: no \<open>expiresAt\<close>;
  and that document alone in the collection, with and without its file on disk.\<close>

definition demo_perpetual :: File where
  "demo_perpetual =
     \<lparr>fid = 7, name = ''b.bin'', fsize = 1, path = ''7-b.bin'', createdAt = 0,
      expiresIn = ''24h'', expiresAt = None, passwordProtected = False,
      passwordHash = None, downloads = 0, maxDownloads = 50, status = Active,
      fileType = ''Other'', uploadedBy = ''unknown'', isPublic = True,
      downloadHistory = [],
      shareStats = \<lparr>totalViews = 0, uniqueVisitors = 0, peakDownloads = 0\<rparr>\<rparr>"

definition demo_kept :: state where
  "demo_kept = \<lparr>files = [demo_perpetual], disk = {''7-b.bin''}\<rparr>"

definition demo_orphan :: state where
  "demo_orphan = \<lparr>files = [demo_perpetual], disk = {}\<rparr>"

section \<open>Properties\<close>

subsection \<open>The collection and the handler's branches\<close>

lemma findById_Some: "findById i fs = Some f \<Longrightarrow> fid f = i \<and> f \<in> set fs"
  unfolding findById_def by (induction fs) (auto split: if_splits)

lemma fid_write_back [simp]: "fid (write_back f0 f1 g) = fid g"
  by (simp add: write_back_def)

lemma write_back_expire [simp]:
  "write_back f (f\<lparr>status := Expired\<rparr>) f = f\<lparr>status := Expired\<rparr>"
  by (cases "status f = Expired") (simp_all add: write_back_def)

lemma write_back_expired_again [simp]:
  "write_back f (f\<lparr>status := Expired\<rparr>) (f\<lparr>status := Expired\<rparr>) = f\<lparr>status := Expired\<rparr>"
  by (cases "status f = Expired") (simp_all add: write_back_def)

lemma write_back_stats [simp]:
  "write_back f (f\<lparr>shareStats := (shareStats f)\<lparr>totalViews := v\<rparr>\<rparr>) f
     = f\<lparr>shareStats := (shareStats f)\<lparr>totalViews := v\<rparr>\<rparr>"
  by (cases "v = totalViews (shareStats f)") (simp_all add: write_back_def)

lemma findById_save_same:
  "findById i fs = Some f \<Longrightarrow> findById i (save f f1 fs) = Some (write_back f f1 f)"
  unfolding findById_def save_def by (induction fs) (auto split: if_splits)

lemma findById_save_other:
  "fid f \<noteq> i \<Longrightarrow> findById i (save f f1 fs) = findById i fs"
  unfolding findById_def save_def by (induction fs) auto

lemma map_fid_save: "map fid (save f f1 fs) = map fid fs"
  unfolding save_def by (induction fs) auto

lemma save_distinct:
  assumes "distinct (map fid fs)" and "f \<in> set fs"
  shows "save f f1 fs = map (\<lambda>g. if g = f then write_back f f1 f else g) fs"
proof -
  have "inj_on fid (set fs)" using assms(1) by (simp add: distinct_map)
  then have "\<And>g. g \<in> set fs \<Longrightarrow> (fid g = fid f) = (g = f)"
    using assms(2) by (auto dest: inj_onD)
  then show ?thesis unfolding save_def by auto
qed

lemma set_save:
  assumes "distinct (map fid fs)" and "f \<in> set fs" and "g \<in> set (save f f1 fs)"
  shows "g = write_back f f1 f \<or> g \<in> set fs"
  using assms(3) unfolding save_distinct [OF assms(1,2)] by auto

lemma findById_distinct:
  "distinct (map fid fs) \<Longrightarrow> f \<in> set fs \<Longrightarrow> findById (fid f) fs = Some f"
  unfolding findById_def by (induction fs) auto

lemma fid_record_download [simp]: "fid (record_download req now f) = fid f"
  by (simp add: record_download_def Let_def)

lemma path_record_download [simp]: "path (record_download req now f) = path f"
  by (simp add: record_download_def Let_def)

lemma name_record_download [simp]: "name (record_download req now f) = name f"
  by (simp add: record_download_def Let_def)

lemma downloads_record_download [simp]:
  "downloads (record_download req now f) = downloads f + 1"
  by (simp add: record_download_def Let_def)

lemma max_record_download [simp]:
  "maxDownloads (record_download req now f) = maxDownloads f"
  by (simp add: record_download_def Let_def)

lemma status_record_download [simp]: "status (record_download req now f) = status f"
  by (simp add: record_download_def Let_def)

lemma expiresAt_record_download [simp]: "expiresAt (record_download req now f) = expiresAt f"
  by (simp add: record_download_def Let_def)

lemma history_record_download:
  "\<exists>e. downloadHistory (record_download req now f) = downloadHistory f @ [e]"
  by (simp add: record_download_def Let_def)

lemma disk_save_file [simp]: "disk (save_file f f1 s) = disk s"
  by (simp add: save_file_def)

lemma files_save_file [simp]: "files (save_file f f1 s) = save f f1 (files s)"
  by (simp add: save_file_def)

lemma write_back_record [simp]:
  "write_back f (record_download req now f) f = record_download req now f"
  by (simp add: write_back_def record_download_def Let_def)

text \<open>The outcomes of the download handler, one per return of the source.\<close>

lemma download_expired:
  assumes "findById i (files s) = Some f" "past_expiry now f"
  shows "download env i req now s = (FileExpired, save_file f (f\<lparr>status := Expired\<rparr>) s)"
  using assms by (simp add: download_def handle_download_def)


lemma download_limit:
  assumes "findById i (files s) = Some f" "\<not> past_expiry now f" "status f = Active"
    "maxDownloads f \<le> downloads f"
  shows "download env i req now s = (LimitReached, save_file f (f\<lparr>status := Expired\<rparr>) s)"
  using assms by (simp add: download_def handle_download_def)

lemma download_rejected:
  assumes "findById i (files s) = Some f" "\<not> past_expiry now f" "status f = Active"
    "downloads f < maxDownloads f" "check_password env (dl_password req) f = PwRejected"
  shows "download env i req now s = (InvalidPassword, s)"
  using assms by (simp add: download_def handle_download_def)


lemma download_commit:
  assumes "findById i (files s) = Some f" "\<not> past_expiry now f" "status f = Active"
    "downloads f < maxDownloads f" "check_password env (dl_password req) f = PwAccepted"
  shows "download env i req now s =
           ((if path f \<in> disk s then Sent (path f) (name f) else FileMissing),
            save_file f (record_download req now f) s)"
  using assms by (simp add: download_def handle_download_def Let_def record_download_def)

lemma download_after_expiry:
  assumes "findById i (files s) = Some f" and "expiresAt f = Some e" and "e < now"
  shows "fst (download env i req now s) = FileExpired
       \<and> findById i (files (snd (download env i req now s))) = Some (f\<lparr>status := Expired\<rparr>)"
proof -
  have p: "past_expiry now f" using assms(2,3) by (simp add: past_expiry_def)
  have "findById i (save f (f\<lparr>status := Expired\<rparr>) (files s)) = Some (f\<lparr>status := Expired\<rparr>)"
    using findById_save_same [OF assms(1)] by simp
  with download_expired [OF assms(1) p] show ?thesis by simp
qed

subsection \<open>Redemption at the instant of expiry\<close>

text \<open>
  C4. The claim: a redemption at a time \<open>now \<ge> expiresAt\<close> fails with the expired
  error and leaves the stored status \<open>expired\<close>. The handler tests
  \<open>new Date() > file.expiresAt\<close>, so beyond \<open>expiresAt\<close> it does exactly that
  (\<open>download_after_expiry\<close>). At the instant \<open>expiresAt\<close> itself it does not: a file
  uploaded at time 0 with \<open>1h\<close> expires at 3600000, and the redemption at 3600000 is
  served and leaves the file active, while the cleanup job, whose query is
  \<open>expiresAt \<le> now\<close>, expires the same file at the same instant.
\<close>

theorem redeemed_at_expiry_instant:
  "map expiresAt (files (run demo_env [Upload demo_upload 0] init_state)) = [Some 3600000]
   \<and> fst (download demo_env 1 demo_req 3600000 (run demo_env [Upload demo_upload 0] init_state))
       = Sent ''1-a.txt'' ''a.txt''
   \<and> map status (files (snd (download demo_env 1 demo_req 3600000
         (run demo_env [Upload demo_upload 0] init_state)))) = [Active]
   \<and> map status (files (sweep False 3600000 (run demo_env [Upload demo_upload 0] init_state)))
       = [Expired]"
  by code_simp

subsection \<open>A wrong password changes nothing\<close>

text \<open>
  C5. A password-protected file (the flag set, the hash stored) that is active, not past
  its expiry and under its limit: a redemption without a password, with the empty
  password, or with a password that \<open>bcrypt.compare\<close> rejects is answered 401
  \<open>Invalid password\<close>, and the collection and the uploads directory are what they
  were: the handler returns before any \<open>save\<close>. The handler tests the flag
  \<open>passwordProtected\<close>; an upload sets it exactly when it stores a hash, and no
  handler changes either (\<open>doc_ok\<close> in \<open>reachable_invariant\<close>, proved below).
\<close>

theorem wrong_password_unauthorized:
  assumes "findById i (files s) = Some f"
    and "passwordProtected f" and "passwordHash f = Some h"
    and "status f = Active" and "\<not> past_expiry now f" and "downloads f < maxDownloads f"
    and "case dl_password req of None \<Rightarrow> True | Some p \<Rightarrow> p = [] \<or> \<not> bcrypt_compare env p h"
  shows "download env i req now s = (InvalidPassword, s)"
proof -
  have "check_password env (dl_password req) f = PwRejected"
    using assms(2,3,7) by (auto simp: check_password_def split: option.splits)
  with assms(1,4,5,6) show ?thesis
    by (rule_tac download_rejected) auto
qed

theorem wrong_password_unauthorized_witness:
  "passwordHash (hd (files (run demo_env [Upload demo_locked_upload 0] init_state))) = Some ''#pw''
   \<and> download demo_env 1 demo_wrong_req 5 (run demo_env [Upload demo_locked_upload 0] init_state)
       = (InvalidPassword, run demo_env [Upload demo_locked_upload 0] init_state)"
proof -
  let ?s = "run demo_env [Upload demo_locked_upload 0] init_state"
  have 1: "findById 1 (files ?s) = Some (hd (files ?s))" by code_simp
  have 2: "passwordProtected (hd (files ?s))" by code_simp
  have 3: "passwordHash (hd (files ?s)) = Some ''#pw''" by code_simp
  have 4: "status (hd (files ?s)) = Active" by code_simp
  have 5: "\<not> past_expiry 5 (hd (files ?s))" by code_simp
  have 6: "downloads (hd (files ?s)) < maxDownloads (hd (files ?s))" by code_simp
  have 7: "case dl_password demo_wrong_req of None \<Rightarrow> True
           | Some p \<Rightarrow> p = [] \<or> \<not> bcrypt_compare demo_env p ''#pw''" by code_simp
  from wrong_password_unauthorized [OF 1 2 3 4 5 6 7] 3 show ?thesis by blast
qed

subsection \<open>A download that finds no file on disk is still counted\<close>

text \<open>
  C9. When the document is found, is not past its expiry, is active and under its limit,
  and the password test passes, but the file is not in the uploads directory, the answer
  is 404 \<open>File missing on disk\<close> and the document has already been saved with the
  counter incremented, one history entry appended and the share statistics updated: the
  redemption that delivered nothing has used one download of the limit.
\<close>

theorem missing_content_consumes_quota:
  assumes "findById i (files s) = Some f"
    and "\<not> past_expiry now f" and "status f = Active" and "downloads f < maxDownloads f"
    and "check_password env (dl_password req) f = PwAccepted"
    and "path f \<notin> disk s"
  shows "fst (download env i req now s) = FileMissing
       \<and> findById i (files (snd (download env i req now s))) = Some (record_download req now f)
       \<and> downloads (record_download req now f) = downloads f + 1
       \<and> length (downloadHistory (record_download req now f)) = length (downloadHistory f) + 1
       \<and> totalViews (shareStats (record_download req now f)) = totalViews (shareStats f) + 1
       \<and> peakDownloads (shareStats (record_download req now f))
           = max (peakDownloads (shareStats f)) (downloads f + 1)"
proof -
  have d: "download env i req now s = (FileMissing, save_file f (record_download req now f) s)"
    using download_commit [OF assms(1-5)] assms(6) by simp
  have "findById i (save f (record_download req now f) (files s)) = Some (record_download req now f)"
    using findById_save_same [OF assms(1)] by simp
  with d show ?thesis
    by (simp add: record_download_def Let_def max_def)
qed

theorem missing_content_consumes_quota_witness:
  "path (hd (files demo_gone)) \<notin> disk demo_gone
   \<and> fst (download demo_env 1 demo_req 5 demo_gone) = FileMissing
   \<and> map downloads (files demo_gone) = [0]
   \<and> map downloads (files (snd (download demo_env 1 demo_req 5 demo_gone))) = [1]"
proof -
  let ?f = "hd (files demo_gone)"
  have 1: "findById 1 (files demo_gone) = Some ?f" by code_simp
  have 2: "\<not> past_expiry 5 ?f" by code_simp
  have 3: "status ?f = Active" by code_simp
  have 4: "downloads ?f < maxDownloads ?f" by code_simp
  have 5: "check_password demo_env (dl_password demo_req) ?f = PwAccepted" by code_simp
  have 6: "path ?f \<notin> disk demo_gone" by code_simp
  have 7: "map downloads (files demo_gone) = [0]" by code_simp
  have 8: "map downloads (files (snd (download demo_env 1 demo_req 5 demo_gone))) = [1]"
    by code_simp
  from missing_content_consumes_quota [OF 1 2 3 4 5 6] 6 7 8 show ?thesis by blast
qed

subsection \<open>The cleanup job\<close>

lemma files_fold_sweep_file:
  "files (fold (sweep_file a) xs s) = fold (\<lambda>f. save f (f\<lparr>status := Expired\<rparr>)) xs (files s)"
  by (induction xs arbitrary: s) (simp_all add: sweep_file_def Let_def)

lemma save_expire_marked:
  assumes d: "distinct (map fid fs)" and x: "x \<in> set fs"
  shows "save x (x\<lparr>status := Expired\<rparr>) (map (\<lambda>f. if f \<in> A then f\<lparr>status := Expired\<rparr> else f) fs)
       = map (\<lambda>f. if f \<in> insert x A then f\<lparr>status := Expired\<rparr> else f) fs"
proof -
  have inj: "inj_on fid (set fs)" using d by (simp add: distinct_map)
  have "\<And>f. f \<in> set fs \<Longrightarrow> (fid f = fid x) = (f = x)"
    using inj x by (auto dest: inj_onD)
  then show ?thesis
    unfolding save_def by (auto simp: comp_def)
qed

lemma fold_save_expire:
  assumes "distinct (map fid fs)" and "set xs \<subseteq> set fs"
  shows "fold (\<lambda>f. save f (f\<lparr>status := Expired\<rparr>)) xs
           (map (\<lambda>f. if f \<in> A then f\<lparr>status := Expired\<rparr> else f) fs)
       = map (\<lambda>f. if f \<in> A \<union> set xs then f\<lparr>status := Expired\<rparr> else f) fs"
  using assms(2)
proof (induction xs arbitrary: A)
  case Nil
  then show ?case by simp
next
  case (Cons x xs)
  then have x: "x \<in> set fs" and xs: "set xs \<subseteq> set fs" by auto
  have "fold (\<lambda>f. save f (f\<lparr>status := Expired\<rparr>)) (x # xs)
          (map (\<lambda>f. if f \<in> A then f\<lparr>status := Expired\<rparr> else f) fs)
      = fold (\<lambda>f. save f (f\<lparr>status := Expired\<rparr>)) xs
          (map (\<lambda>f. if f \<in> insert x A then f\<lparr>status := Expired\<rparr> else f) fs)"
    by (simp only: fold_simps save_expire_marked [OF assms(1) x])
  also have "\<dots> = map (\<lambda>f. if f \<in> insert x A \<union> set xs then f\<lparr>status := Expired\<rparr> else f) fs"
    by (rule Cons.IH [OF xs])
  also have "insert x A \<union> set xs = A \<union> set (x # xs)" by auto
  finally show ?case .
qed

lemma files_sweep:
  assumes "distinct (map fid (files s))"
  shows "files (sweep a now s)
       = map (\<lambda>f. if sweep_query now f then f\<lparr>status := Expired\<rparr> else f) (files s)"
proof -
  let ?xs = "filter (sweep_query now) (files s)"
  have "fold (\<lambda>f. save f (f\<lparr>status := Expired\<rparr>)) ?xs
          (map (\<lambda>f. if f \<in> {} then f\<lparr>status := Expired\<rparr> else f) (files s))
      = map (\<lambda>f. if f \<in> {} \<union> set ?xs then f\<lparr>status := Expired\<rparr> else f) (files s)"
    by (rule fold_save_expire [OF assms]) auto
  then have "fold (\<lambda>f. save f (f\<lparr>status := Expired\<rparr>)) ?xs (files s)
      = map (\<lambda>f. if sweep_query now f then f\<lparr>status := Expired\<rparr> else f) (files s)"
    by (simp cong: map_cong)
  then show ?thesis by (simp add: sweep_def files_fold_sweep_file)
qed

lemma sweep_query_expired [simp]: "\<not> sweep_query now (f\<lparr>status := Expired\<rparr>)"
  by (simp add: sweep_query_def)

lemma sweep_nothing_found:
  "filter (sweep_query now) (files s) = [] \<Longrightarrow> sweep a now s = s"
  by (simp add: sweep_def)

text \<open>
  C7. In a collection whose documents have distinct ids, one run of the cleanup job at
  time \<open>now\<close> sets to \<open>expired\<close> exactly the documents that are active and have an
  \<open>expiresAt \<le> now\<close>, and leaves every other document as it is, in its place; and a
  second run at the same time (whatever the auto-delete setting) changes nothing more,
  in the collection or in the uploads directory.
\<close>

theorem sweep_selective_idempotent:
  assumes "distinct (map fid (files s))"
  shows "files (sweep a now s)
           = map (\<lambda>f. if status f = Active \<and> (\<exists>e. expiresAt f = Some e \<and> e \<le> now)
                       then f\<lparr>status := Expired\<rparr> else f) (files s)
       \<and> sweep b now (sweep a now s) = sweep a now s"
proof -
  have q: "\<And>f. sweep_query now f = (status f = Active \<and> (\<exists>e. expiresAt f = Some e \<and> e \<le> now))"
    by (auto simp: sweep_query_def split: option.splits)
  have 1: "files (sweep a now s)
      = map (\<lambda>f. if sweep_query now f then f\<lparr>status := Expired\<rparr> else f) (files s)"
    by (rule files_sweep [OF assms])
  have "filter (sweep_query now) (files (sweep a now s)) = []"
    unfolding 1 by (auto simp: filter_empty_conv)
  then have "sweep b now (sweep a now s) = sweep a now s"
    by (rule sweep_nothing_found)
  with 1 show ?thesis by (simp add: q)
qed

theorem sweep_selective_idempotent_witness:
  "distinct (map fid (files demo_two))
   \<and> map status (files demo_two) = [Active, Active]
   \<and> map status (files (sweep True 3600000 demo_two)) = [Expired, Active]
   \<and> sweep True 3600000 (sweep True 3600000 demo_two) = sweep True 3600000 demo_two"
proof -
  have 1: "distinct (map fid (files demo_two))" by code_simp
  have 2: "map status (files demo_two) = [Active, Active]" by code_simp
  have 3: "map status (files (sweep True 3600000 demo_two)) = [Expired, Active]" by code_simp
  from sweep_selective_idempotent [OF 1, of True 3600000 True] 1 2 3 show ?thesis by blast
qed

subsection \<open>Invariants of the collection\<close>

lemma le_foldr_max: "x \<in> set xs \<Longrightarrow> x \<le> foldr max xs (0::nat)"
  by (induction xs) (auto simp: max_def)

lemma fresh_id_new: "fresh_id fs \<notin> set (map fid fs)"
proof
  assume "fresh_id fs \<in> set (map fid fs)"
  then have "fresh_id fs \<le> foldr max (map fid fs) 0" by (rule le_foldr_max)
  then show False by (simp add: fresh_id_def)
qed

lemma map_fid_fold_save:
  "map fid (fold (\<lambda>f. save f (f\<lparr>status := Expired\<rparr>)) xs fs) = map fid fs"
  by (induction xs arbitrary: fs) (simp_all add: map_fid_save)

text \<open>Where a document of the collection after a request comes from.\<close>

lemma upload_files:
  "files (snd (upload env req now s)) = files s
   \<or> (\<exists>uf t. files (snd (upload env req now s))
         = files s @ [new_File env uf req now t (fresh_id (files s))])"
  by (auto simp: upload_def insert_file_def Let_def split: option.splits date.splits)

lemma share_page_files:
  "files (snd (share_page i now s)) = files s
   \<or> (\<exists>f. findById i (files s) = Some f \<and>
        (files (snd (share_page i now s)) = save f (f\<lparr>status := Expired\<rparr>) (files s)
         \<or> (\<exists>v. files (snd (share_page i now s))
               = save f (f\<lparr>shareStats := (shareStats f)\<lparr>totalViews := v\<rparr>\<rparr>) (files s))))"
  by (auto simp: share_page_def split: option.splits)

lemma download_files:
  "files (snd (download env i req now s)) = files s
   \<or> (\<exists>f. findById i (files s) = Some f \<and>
        (files (snd (download env i req now s)) = save f (f\<lparr>status := Expired\<rparr>) (files s)
         \<or> (downloads f < maxDownloads f
             \<and> files (snd (download env i req now s))
                 = save f (record_download req now f) (files s))))"
  by (auto simp: download_def handle_download_def Let_def split: option.splits pw_result.splits)

lemma step_distinct:
  assumes "distinct (map fid (files s))"
  shows "distinct (map fid (files (step env r s)))"
proof (cases r)
  case (Upload req now)
  then show ?thesis
    using upload_files [of env req now s] assms fresh_id_new [of "files s"]
    by (auto simp: new_File_def)
next
  case (SharePage i now)
  then show ?thesis
    using share_page_files [of i now s] assms by (auto simp: map_fid_save)
next
  case (Download i req now)
  then show ?thesis
    using download_files [of env i req now s] assms by (auto simp: map_fid_save)
next
  case (Sweep a now)
  then show ?thesis
    using assms by (simp add: sweep_def files_fold_sweep_file map_fid_fold_save)
qed

lemma doc_ok_new: "doc_ok (new_File env uf req now t i)"
  by (auto simp: doc_ok_def new_File_def truthy_def split: option.splits)

lemma doc_ok_expire: "doc_ok f \<Longrightarrow> doc_ok (f\<lparr>status := Expired\<rparr>)"
  by (simp add: doc_ok_def)

lemma doc_ok_stats: "doc_ok f \<Longrightarrow> doc_ok (f\<lparr>shareStats := v\<rparr>)"
  by (simp add: doc_ok_def)

lemma doc_ok_record:
  "doc_ok f \<Longrightarrow> downloads f < maxDownloads f \<Longrightarrow> doc_ok (record_download req now f)"
  by (simp add: doc_ok_def record_download_def Let_def)

lemma save_doc_ok:
  assumes d: "distinct (map fid fs)" and ok: "\<forall>f\<in>set fs. doc_ok f"
    and f: "findById i fs = Some f" and w: "write_back f f1 f = f1" and f1: "doc_ok f1"
  shows "\<forall>g\<in>set (save f f1 fs). doc_ok g"
proof
  fix g assume "g \<in> set (save f f1 fs)"
  moreover have "f \<in> set fs" using findById_Some [OF f] by simp
  ultimately have "g = write_back f f1 f \<or> g \<in> set fs" using d by (intro set_save)
  then show "doc_ok g" using ok w f1 by auto
qed

lemma step_doc_ok:
  assumes d: "distinct (map fid (files s))" and ok: "\<forall>f\<in>set (files s). doc_ok f"
  shows "\<forall>g\<in>set (files (step env r s)). doc_ok g"
proof (cases r)
  case (Upload req now)
  then show ?thesis
    using upload_files [of env req now s] ok by (auto simp: doc_ok_new)
next
  case (SharePage i now)
  from share_page_files [of i now s]
  have "\<forall>g\<in>set (files (snd (share_page i now s))). doc_ok g"
  proof (elim disjE exE conjE)
    assume "files (snd (share_page i now s)) = files s"
    then show ?thesis using ok by simp
  next
    fix f assume f: "findById i (files s) = Some f"
      and e: "files (snd (share_page i now s)) = save f (f\<lparr>status := Expired\<rparr>) (files s)"
    have "doc_ok f" using ok findById_Some [OF f] by simp
    then show ?thesis
      unfolding e by (intro save_doc_ok [OF d ok f]) (simp_all add: doc_ok_expire)
  next
    fix f v assume f: "findById i (files s) = Some f"
      and e: "files (snd (share_page i now s))
               = save f (f\<lparr>shareStats := (shareStats f)\<lparr>totalViews := v\<rparr>\<rparr>) (files s)"
    have "doc_ok f" using ok findById_Some [OF f] by simp
    then show ?thesis
      unfolding e by (intro save_doc_ok [OF d ok f]) (simp_all add: doc_ok_stats)
  qed
  then show ?thesis using SharePage by simp
next
  case (Download i req now)
  from download_files [of env i req now s]
  have "\<forall>g\<in>set (files (snd (download env i req now s))). doc_ok g"
  proof (elim disjE exE conjE)
    assume "files (snd (download env i req now s)) = files s"
    then show ?thesis using ok by simp
  next
    fix f assume f: "findById i (files s) = Some f"
      and e: "files (snd (download env i req now s)) = save f (f\<lparr>status := Expired\<rparr>) (files s)"
    have "doc_ok f" using ok findById_Some [OF f] by simp
    then show ?thesis
      unfolding e by (intro save_doc_ok [OF d ok f]) (simp_all add: doc_ok_expire)
  next
    fix f assume f: "findById i (files s) = Some f" and lt: "downloads f < maxDownloads f"
      and e: "files (snd (download env i req now s))
               = save f (record_download req now f) (files s)"
    have "doc_ok f" using ok findById_Some [OF f] by simp
    then show ?thesis
      unfolding e using lt by (intro save_doc_ok [OF d ok f]) (simp_all add: doc_ok_record)
  qed
  then show ?thesis using Download by simp
next
  case (Sweep a now)
  then show ?thesis
    using ok by (auto simp: files_sweep [OF d] doc_ok_expire)
qed

lemma run_invariant:
  assumes "distinct (map fid (files s))" and "\<forall>f\<in>set (files s). doc_ok f"
  shows "distinct (map fid (files (run env rs s))) \<and> (\<forall>f\<in>set (files (run env rs s)). doc_ok f)"
  using assms unfolding run_def
proof (induction rs arbitrary: s)
  case Nil
  then show ?case by simp
next
  case (Cons r rs)
  have "distinct (map fid (files (step env r s)))"
    using Cons.prems(1) by (rule step_distinct)
  moreover have "\<forall>f\<in>set (files (step env r s)). doc_ok f"
    using Cons.prems by (rule step_doc_ok)
  ultimately show ?case using Cons.IH by simp
qed

lemma reachable_invariant:
  "distinct (map fid (files (run env rs init_state)))
   \<and> (\<forall>f\<in>set (files (run env rs init_state)). doc_ok f)"
  by (rule run_invariant) (simp_all add: init_state_def)

subsection \<open>The evaluated runs\<close>


lemma demo_last_eval: "demo_last = \<lparr>files = [demo_doc 49], disk = {''1-a.txt''}\<rparr>"
  by code_simp

lemmas demo_simps =
  demo_doc_def demo_req_def demo_env_def findById_def download_def handle_download_def
  past_expiry_def check_password_def save_file_def save_def write_back_def record_download_def
  or_else_def

subsection \<open>The download limit\<close>




subsection \<open>The download history and the counter\<close>

lemma findById_append:
  "findById i fs = Some f \<Longrightarrow> findById i (fs @ gs) = Some f"
  unfolding findById_def by (induction fs) (auto split: if_splits)

lemma findById_map_expire:
  "findById i fs = Some f \<Longrightarrow>
   findById i (map (\<lambda>f. if q f then f\<lparr>status := Expired\<rparr> else f) fs)
     = Some (if q f then f\<lparr>status := Expired\<rparr> else f)"
  unfolding findById_def by (induction fs) (auto split: if_splits)

lemma step_counted:
  assumes d: "distinct (map fid (files s))" and f: "findById i (files s) = Some f"
  shows "\<exists>g. findById i (files (step env r s)) = Some g \<and> counted r i f g"
proof (cases r)
  case (Upload req now)
  have "findById i (files (snd (upload env req now s))) = Some f"
    using upload_files [of env req now s] f by (auto simp: findById_append)
  then show ?thesis using Upload by (auto simp: counted_def)
next
  case (SharePage j now)
  show ?thesis
  proof (cases "j = i")
    case True
    then show ?thesis
      using SharePage f findById_Some [OF f]
      by (auto simp: share_page_def counted_def findById_save_same)
  next
    case False
    have "findById i (files (snd (share_page j now s))) = Some f"
      using share_page_files [of j now s] f False
      by (auto dest: findById_Some simp: findById_save_other)
    then show ?thesis using SharePage by (auto simp: counted_def)
  qed
next
  case (Download j req now)
  show ?thesis
  proof (cases "j = i")
    case True
    have i: "fid f = i" using findById_Some [OF f] by simp
    have "files (snd (download env i req now s)) = files s
        \<or> files (snd (download env i req now s)) = save f (f\<lparr>status := Expired\<rparr>) (files s)
        \<or> files (snd (download env i req now s)) = save f (record_download req now f) (files s)"
      using download_files [of env i req now s] f by auto
    then consider "findById i (files (snd (download env i req now s))) = Some f"
      | "findById i (files (snd (download env i req now s))) = Some (f\<lparr>status := Expired\<rparr>)"
      | "findById i (files (snd (download env i req now s))) = Some (record_download req now f)"
      using f i by (auto simp: findById_save_same)
    then show ?thesis
      using Download True history_record_download [of req now f]
      by cases (auto simp: counted_def)
  next
    case False
    have "findById i (files (snd (download env j req now s))) = Some f"
      using download_files [of env j req now s] f False
      by (auto dest: findById_Some simp: findById_save_other)
    then show ?thesis using Download False by (auto simp: counted_def)
  qed
next
  case (Sweep a now)
  have "findById i (files (sweep a now s))
      = Some (if sweep_query now f then f\<lparr>status := Expired\<rparr> else f)"
    unfolding files_sweep [OF d] using f by (rule findById_map_expire)
  then show ?thesis using Sweep by (auto simp: counted_def)
qed

text \<open>
  C8, as the claim states it, fails: it speaks of every state that the operations reach,
  and two redemptions in flight together reach one where the history is longer than the
  counter says. After one upload and 49 downloads (counter 49, 49 entries), two handlers
  that both receive the document before either resumes both set the counter to 50 and
  both push an entry: the stored document has \<open>downloads = 50\<close> and 51 entries.
\<close>

theorem overlapping_downloads_outrun_counter:
  "map downloads (files demo_last) = [49]
   \<and> map (length \<circ> downloadHistory) (files demo_last) = [49]
   \<and> map downloads (files (shared
         (fly demo_env 1 demo_reqs [Found 0, Found 1, Resume 0, Resume 1] demo_last))) = [50]
   \<and> map (length \<circ> downloadHistory) (files (shared
         (fly demo_env 1 demo_reqs [Found 0, Found 1, Resume 0, Resume 1] demo_last))) = [51]"
  by (simp add: demo_last_eval demo_simps fly_def start_flight_def demo_reqs_def Let_def)

text \<open>
  C8, amended. In every state reached from the empty collection by uploads, share-page
  views, downloads and cleanup runs, each finished before the next starts, the download
  history of every document is as long as its counter says. And whatever request comes
  next, a stored document keeps its counter and its history, or the request is a download
  of that document, the counter goes up by one and the history gets one entry at its end:
  no other request appends to the history or shortens it.
\<close>

theorem history_matches_counter:
  "(\<forall>f\<in>set (files (run env rs init_state)). int (length (downloadHistory f)) = downloads f)
   \<and> (findById i (files (run env rs init_state)) = Some f \<longrightarrow>
        (\<exists>g. findById i (files (step env r (run env rs init_state))) = Some g
           \<and> ((downloads g = downloads f \<and> downloadHistory g = downloadHistory f)
               \<or> ((\<exists>q t. r = Download i q t) \<and> downloads g = downloads f + 1
                   \<and> (\<exists>e. downloadHistory g = downloadHistory f @ [e])))))"
proof (intro conjI impI)
  show "\<forall>f\<in>set (files (run env rs init_state)). int (length (downloadHistory f)) = downloads f"
    using reachable_invariant [of env rs] by (auto simp: doc_ok_def)
next
  assume "findById i (files (run env rs init_state)) = Some f"
  with reachable_invariant [of env rs]
  have "\<exists>g. findById i (files (step env r (run env rs init_state))) = Some g \<and> counted r i f g"
    by (intro step_counted) auto
  then show "\<exists>g. findById i (files (step env r (run env rs init_state))) = Some g
           \<and> ((downloads g = downloads f \<and> downloadHistory g = downloadHistory f)
               \<or> ((\<exists>q t. r = Download i q t) \<and> downloads g = downloads f + 1
                   \<and> (\<exists>e. downloadHistory g = downloadHistory f @ [e])))"
    by (simp add: counted_def)
qed

theorem history_matches_counter_witness:
  "demo_doc 49 \<in> set (files demo_last)
   \<and> length (downloadHistory (demo_doc 49)) = 49
   \<and> downloads (demo_doc 49) = 49
   \<and> map downloads (files (step demo_env (Download 1 demo_req 5) demo_last)) = [50]
   \<and> map (length \<circ> downloadHistory) (files (step demo_env (Download 1 demo_req 5) demo_last)) = [50]"
proof -
  let ?f = "demo_doc 49"
  let ?rs = "Upload demo_upload 0 # replicate 49 (Download 1 demo_req 5)"
  have r: "run demo_env ?rs init_state = demo_last" by (simp add: demo_last_def)
  have m: "?f \<in> set (files demo_last)" by (simp add: demo_last_eval)
  have 1: "findById 1 (files demo_last) = Some ?f" by (simp add: demo_last_eval demo_simps)
  have 2: "downloads ?f = 49" by (simp add: demo_doc_def)
  have 3: "map downloads (files (step demo_env (Download 1 demo_req 5) demo_last)) = [50]"
    by (simp add: demo_last_eval demo_simps)
  have 4: "map (length \<circ> downloadHistory) (files (step demo_env (Download 1 demo_req 5) demo_last)) = [50]"
    by (simp add: demo_last_eval demo_simps)
  from history_matches_counter [of demo_env ?rs 1 ?f "Download 1 demo_req 5"]
  have "int (length (downloadHistory ?f)) = downloads ?f"
    using m unfolding r by blast
  with 2 have "length (downloadHistory ?f) = 49" by simp
  with m 2 3 4 show ?thesis by blast
qed

subsection \<open>The download that uses up the limit\<close>

lemma last_download_then_limit:
  assumes "findById i (files s) = Some f"
    and "\<not> past_expiry now f" and "status f = Active"
    and "downloads f + 1 = maxDownloads f"
    and "check_password env (dl_password req) f = PwAccepted"
    and "path f \<in> disk s"
    and "\<not> past_expiry now' f"
  shows "fst (download env i req now s) = Sent (path f) (name f)
       \<and> findById i (files (snd (download env i req now s))) = Some (record_download req now f)
       \<and> downloads (record_download req now f) = maxDownloads f
       \<and> status (record_download req now f) = Active
       \<and> fst (download env i req' now' (snd (download env i req now s))) = LimitReached
       \<and> findById i (files (snd (download env i req' now' (snd (download env i req now s)))))
           = Some ((record_download req now f)\<lparr>status := Expired\<rparr>)"
proof -
  let ?g = "record_download req now f"
  let ?s = "save_file f ?g s"
  have lt: "downloads f < maxDownloads f" using assms(4) by simp
  have i: "fid f = i" using findById_Some [OF assms(1)] by simp
  have d: "download env i req now s = (Sent (path f) (name f), ?s)"
    using download_commit [OF assms(1,2,3) lt assms(5)] assms(6) by simp
  have g: "findById i (files ?s) = Some ?g"
    using assms(1) i by (simp add: findById_save_same)
  have "\<not> past_expiry now' ?g" using assms(7) by (simp add: past_expiry_def)
  moreover have "status ?g = Active" using assms(3) by simp
  moreover have "maxDownloads ?g \<le> downloads ?g" using assms(4) by simp
  ultimately have d2: "download env i req' now' ?s
      = (LimitReached, save_file ?g (?g\<lparr>status := Expired\<rparr>) ?s)"
    by (rule download_limit [OF g])
  have "findById i (files (save_file ?g (?g\<lparr>status := Expired\<rparr>) ?s))
      = Some (?g\<lparr>status := Expired\<rparr>)"
    using findById_save_same [OF g] by simp
  with d d2 g assms(3,4) show ?thesis by simp
qed

text \<open>
  C3, as the claim states it, fails: the download that brings the counter to the limit
  does not set the status. After one upload and 49 downloads, the 50th download is served,
  and the document it saves has \<open>downloads = maxDownloads = 50\<close> and is still active.
\<close>

theorem last_download_leaves_link_active:
  "fst (download demo_env 1 demo_req 5 demo_last) = Sent ''1-a.txt'' ''a.txt''
   \<and> map downloads (files (snd (download demo_env 1 demo_req 5 demo_last))) = [50]
   \<and> map maxDownloads (files (snd (download demo_env 1 demo_req 5 demo_last))) = [50]
   \<and> map status (files (snd (download demo_env 1 demo_req 5 demo_last))) = [Active]"
  by (simp add: demo_last_eval demo_simps)

text \<open>
  C3, amended. A redemption that succeeds and whose increment makes the counter equal to
  the limit saves the document with the counter at the limit and the status still
  \<open>active\<close>. The status becomes \<open>expired\<close> at the next redemption that comes
  before the expiry: it reaches the limit test, is refused with the limit error, and saves
  the document as expired.
\<close>

theorem quota_consumed_expires_on_next_attempt:
  assumes "findById i (files s) = Some f"
    and "\<not> past_expiry now f" and "status f = Active"
    and "downloads f + 1 = maxDownloads f"
    and "check_password env (dl_password req) f = PwAccepted"
    and "path f \<in> disk s"
    and "\<not> past_expiry now' f"
  shows "fst (download env i req now s) = Sent (path f) (name f)
       \<and> findById i (files (snd (download env i req now s))) = Some (record_download req now f)
       \<and> downloads (record_download req now f) = maxDownloads f
       \<and> status (record_download req now f) = Active
       \<and> fst (download env i req' now' (snd (download env i req now s))) = LimitReached
       \<and> findById i (files (snd (download env i req' now' (snd (download env i req now s)))))
           = Some ((record_download req now f)\<lparr>status := Expired\<rparr>)"
  using assms by (rule last_download_then_limit)

theorem quota_consumed_expires_on_next_attempt_witness:
  "downloads (demo_doc 49) + 1 = maxDownloads (demo_doc 49)
   \<and> fst (download demo_env 1 demo_req 5 demo_last) = Sent ''1-a.txt'' ''a.txt''
   \<and> fst (download demo_env 1 demo_req 6 (snd (download demo_env 1 demo_req 5 demo_last)))
       = LimitReached
   \<and> map status (files (snd (download demo_env 1 demo_req 6
         (snd (download demo_env 1 demo_req 5 demo_last))))) = [Expired]"
proof -
  let ?f = "demo_doc 49"
  have 1: "findById 1 (files demo_last) = Some ?f" by (simp add: demo_last_eval demo_simps)
  have 2: "\<not> past_expiry 5 ?f" by (simp add: demo_simps)
  have 3: "status ?f = Active" by (simp add: demo_simps)
  have 4: "downloads ?f + 1 = maxDownloads ?f" by (simp add: demo_simps)
  have 5: "check_password demo_env (dl_password demo_req) ?f = PwAccepted" by (simp add: demo_simps)
  have 6: "path ?f \<in> disk demo_last" by (simp add: demo_last_eval demo_simps)
  have 7: "\<not> past_expiry 6 ?f" by (simp add: demo_simps)
  have 8: "map status (files (snd (download demo_env 1 demo_req 6
         (snd (download demo_env 1 demo_req 5 demo_last))))) = [Expired]"
    by (simp add: demo_last_eval demo_simps)
  have 9: "path ?f = ''1-a.txt'' \<and> name ?f = ''a.txt''" by (simp add: demo_simps)
  from quota_consumed_expires_on_next_attempt [OF 1 2 3 4 5 6 7, of demo_req] 4 8 9
  show ?thesis by simp
qed

subsection \<open>A document without an expiry date\<close>

text \<open>
  C10, as the claim states it, fails in one part: such a document does not fail through
  status, limit or password only. An active, unprotected document without \<open>expiresAt\<close>,
  under its limit, whose file is not in the uploads directory, is answered 404
  \<open>File missing on disk\<close>.
\<close>

theorem perpetual_link_fails_on_missing_file:
  "expiresAt demo_perpetual = None
   \<and> status demo_perpetual = Active
   \<and> downloads demo_perpetual < maxDownloads demo_perpetual
   \<and> \<not> passwordProtected demo_perpetual
   \<and> fst (download demo_env 7 demo_req 5 demo_orphan) = FileMissing"
  by (simp add: demo_orphan_def demo_perpetual_def demo_simps)

text \<open>
  C10, amended. A document without \<open>expiresAt\<close> is never treated as expired. The
  answer to its redemption does not depend on the time, and is never
  \<open>File has expired\<close>: it is the inactive error when the status is not active, the
  limit error when the counter has reached the limit, the password error (or the 500 of a
  protected document that has no hash) when the password test fails, the missing-file
  error when the file is not on disk, and the download otherwise. The query of the
  cleanup job never selects it, and a cleanup run leaves it as it is.
\<close>

theorem absent_expiry_never_expires:
  assumes "findById i (files s) = Some f" and "expiresAt f = None"
  shows "fst (download env i req now s) =
           (if status f \<noteq> Active then FileInactive
            else if maxDownloads f \<le> downloads f then LimitReached
            else case check_password env (dl_password req) f of
                   PwRejected \<Rightarrow> InvalidPassword
                 | PwThrows \<Rightarrow> DownloadFailed
                 | PwAccepted \<Rightarrow> if path f \<in> disk s then Sent (path f) (name f) else FileMissing)
       \<and> fst (download env i req now s) \<noteq> FileExpired
       \<and> \<not> sweep_query now f
       \<and> (distinct (map fid (files s)) \<longrightarrow> findById i (files (sweep a now s)) = Some f)"
proof -
  have p: "\<not> past_expiry now f" using assms(2) by (simp add: past_expiry_def)
  have q: "\<not> sweep_query now f" using assms(2) by (simp add: sweep_query_def)
  have 1: "fst (download env i req now s) =
           (if status f \<noteq> Active then FileInactive
            else if maxDownloads f \<le> downloads f then LimitReached
            else case check_password env (dl_password req) f of
                   PwRejected \<Rightarrow> InvalidPassword
                 | PwThrows \<Rightarrow> DownloadFailed
                 | PwAccepted \<Rightarrow> if path f \<in> disk s then Sent (path f) (name f) else FileMissing)"
    using assms(1) p
    by (simp add: download_def handle_download_def Let_def split: pw_result.splits)
  have 2: "fst (download env i req now s) \<noteq> FileExpired"
    unfolding 1 by (simp split: pw_result.splits)
  have 3: "distinct (map fid (files s)) \<longrightarrow> findById i (files (sweep a now s)) = Some f"
  proof
    assume d: "distinct (map fid (files s))"
    show "findById i (files (sweep a now s)) = Some f"
      unfolding files_sweep [OF d] using findById_map_expire [OF assms(1), of "sweep_query now"] q
      by simp
  qed
  from 1 2 3 q show ?thesis by blast
qed

theorem absent_expiry_never_expires_witness:
  "expiresAt demo_perpetual = None
   \<and> fst (download demo_env 7 demo_req 9000000000000000 demo_kept) = Sent ''7-b.bin'' ''b.bin''
   \<and> \<not> sweep_query 9000000000000000 demo_perpetual
   \<and> findById 7 (files (sweep True 9000000000000000 demo_kept)) = Some demo_perpetual"
proof -
  have 1: "findById 7 (files demo_kept) = Some demo_perpetual"
    by (simp add: demo_kept_def demo_perpetual_def findById_def)
  have 2: "expiresAt demo_perpetual = None" by (simp add: demo_perpetual_def)
  have 3: "distinct (map fid (files demo_kept))" by (simp add: demo_kept_def)
  have 4: "status demo_perpetual = Active \<and> \<not> maxDownloads demo_perpetual \<le> downloads demo_perpetual
     \<and> check_password demo_env (dl_password demo_req) demo_perpetual = PwAccepted"
    by (simp add: demo_perpetual_def check_password_def)
  have 5: "path demo_perpetual = ''7-b.bin'' \<and> name demo_perpetual = ''b.bin''"
    by (simp add: demo_perpetual_def)
  have 6: "disk demo_kept = {''7-b.bin''}" by (simp add: demo_kept_def)
  from absent_expiry_never_expires [OF 1 2, of demo_env demo_req 9000000000000000 True] 2 3 4
  show ?thesis by (simp add: 5 6)
qed

subsection \<open>Two redemptions of the last download\<close>





subsection \<open>The expiry specification of an upload\<close>












end
